theory Spec2Isabelle
  imports Complex_Main "HOL-Library.Multiset"
begin

section \<open>Strings and numbers of the source\<close>

text \<open>
  A JavaScript string is a sequence of UTF-16 code units; the institution and product
  names of this program are Hangul, so a string is modelled as the list of its code units.
  A JavaScript number is modelled as an exact rational: the rounding error of IEEE
  doubles, NaN and the infinities are outside the model.
\<close>

type_synonym ustring = "nat list"

text \<open>\<open>Math.round\<close>: the nearest integer, a tie going up.\<close>

definition js_round :: "rat \<Rightarrow> int" where
  "js_round x = \<lfloor>x + 1 / 2\<rfloor>"

text \<open>
  \<open>String.prototype.toLowerCase\<close> on the letters A to Z; every other code unit is kept
  (Hangul syllables, digits and punctuation have no case).
\<close>

definition lower_unit :: "nat \<Rightarrow> nat" where
  "lower_unit c = (if 65 \<le> c \<and> c \<le> 90 then c + 32 else c)"

definition toLowerCase :: "ustring \<Rightarrow> ustring" where
  "toLowerCase s = map lower_unit s"

text \<open>
  The class \<open>\s\<close> of a JavaScript regular expression (white space and line terminators),
  which is also what \<open>trim\<close> removes at both ends.
\<close>

definition is_space :: "nat \<Rightarrow> bool" where
  "is_space c \<longleftrightarrow> c \<in> set [9, 10, 11, 12, 13, 32, 160, 5760, 8192, 8193, 8194, 8195, 8196,
     8197, 8198, 8199, 8200, 8201, 8202, 8232, 8233, 8239, 8287, 12288, 65279]"

text \<open>The class \<open>[(){}\[\]\<cdot>,\-_/]\<close> of \<open>key\<close>; 183 is the middle dot.\<close>

definition is_punct :: "nat \<Rightarrow> bool" where
  "is_punct c \<longleftrightarrow> c \<in> set [40, 41, 123, 125, 91, 93, 183, 44, 45, 95, 47]"

definition trim :: "ustring \<Rightarrow> ustring" where
  "trim s = rev (dropWhile is_space (rev (dropWhile is_space s)))"

text \<open>
  \<open>const key = (s) => String(s||"").toLowerCase().replace(/\s+/g,"").replace(/[(){}\[\]\<cdot>,\-_/]/g,"")\<close>
\<close>

definition key :: "ustring \<Rightarrow> ustring" where
  "key s = filter (\<lambda>c. \<not> is_punct c) (filter (\<lambda>c. \<not> is_space c) (toLowerCase s))"

text \<open>
  \<open>/(k1|k2|...)/.test(n)\<close>: some keyword occurs in \<open>n\<close> as a contiguous piece, that is,
  it starts \<open>n\<close> or one of the tails of \<open>n\<close>.
\<close>

fun starts_with :: "ustring \<Rightarrow> ustring \<Rightarrow> bool" where
  "starts_with [] n = True"
| "starts_with (c # k) [] = False"
| "starts_with (c # k) (d # n) = (c = d \<and> starts_with k n)"

fun occurs_in :: "ustring \<Rightarrow> ustring \<Rightarrow> bool" where
  "occurs_in k [] = (k = [])"
| "occurs_in k (d # n) = (starts_with k (d # n) \<or> occurs_in k n)"

definition test_any :: "ustring list \<Rightarrow> ustring \<Rightarrow> bool" where
  "test_any kws n = list_ex (\<lambda>k. occurs_in k n) kws"

text \<open>
  The flag \<open>i\<close> of a regular expression without the flag \<open>u\<close> compares the upper-case
  forms of the code units, and never lets a unit above 127 stand for one below 128.
  The keywords below hold the letters U, S, D and Hangul only, so the comparison is the one
  of the ASCII upper-case forms.
\<close>

definition canon_unit :: "nat \<Rightarrow> nat" where
  "canon_unit c = (if 97 \<le> c \<and> c \<le> 122 then c - 32 else c)"

definition test_any_i :: "ustring list \<Rightarrow> ustring \<Rightarrow> bool" where
  "test_any_i kws n = list_ex (\<lambda>k. occurs_in (map canon_unit k) (map canon_unit n)) kws"

section \<open>Accounts\<close>

datatype AccountType = demand | term_deposit | fx_deposit | trust_protected | investment

text \<open>
  The type \<open>Account\<close>. The constructor \<open>term_deposit\<close> is the source's \<open>"term"\<close>, the
  field \<open>term_months\<close> its \<open>term\<close> and \<open>acc_id\<close> its \<open>id\<close>. The optional fields are
  options, and so is \<open>balance\<close>, which the source reads as \<open>a.balance ?? 0\<close>.
\<close>

record Account =
  acc_id :: ustring
  institution :: ustring
  license :: ustring
  type :: AccountType
  currency :: ustring
  balance :: "rat option"
  fxRate :: "rat option"
  term_months :: "nat option"
  product_name :: "ustring option"

definition USD :: ustring where
  "USD = [85, 83, 68]"

definition KRW :: ustring where
  "KRW = [75, 82, 87]"

text \<open>\<open>x ?? d\<close>\<close>

definition nullish :: "'a option \<Rightarrow> 'a \<Rightarrow> 'a" where
  "nullish x d = (case x of None \<Rightarrow> d | Some v \<Rightarrow> v)"

definition toKRW :: "Account \<Rightarrow> rat" where
  "toKRW a =
     (if currency a = USD then of_int (js_round (nullish (balance a) 0 * nullish (fxRate a) 1400))
      else nullish (balance a) 0)"

text \<open>\<open>["demand","term","fx_deposit","trust_protected"].includes(a.type)\<close>\<close>

definition isProtectedType :: "AccountType \<Rightarrow> bool" where
  "isProtectedType t \<longleftrightarrow> t \<in> set [demand, term_deposit, fx_deposit, trust_protected]"

section \<open>Inference of the account type from the product name\<close>

definition term_keywords :: "ustring list" where
  "term_keywords = [[51221, 44592, 50696, 44552], [50696, 52824], [47564, 44592],
     [51201, 44552], [50900, 48373, 47532], [45800, 47532]]"

definition demand_keywords :: "ustring list" where
  "demand_keywords = [[51077, 52636, 44552], [48372, 53685, 50696, 44552], [48372, 53685],
     [51088, 50976, 51077, 52636, 44552], [49688, 49884, 51077, 52636, 44552],
     [53685, 51109], [44553, 50668], [50900, 44553], [52404, 53356]]"

definition fx_keywords :: "ustring list" where
  "fx_keywords = [[50808, 54868], [45804, 47084], [85, 83, 68], [48120, 44397, 45804, 47084]]"

definition trust_keywords :: "ustring list" where
  "trust_keywords = [[44552, 51204, 49888, 53441], [50896, 48376, 48372, 51204],
     [49888, 53441]]"

definition inferTypeFromProduct :: "ustring \<Rightarrow> AccountType" where
  "inferTypeFromProduct n =
     (if test_any term_keywords n then term_deposit
      else if test_any demand_keywords n then demand
      else if test_any_i fx_keywords n then fx_deposit
      else if test_any trust_keywords n then trust_protected
      else demand)"

definition inferCurrency :: "ustring \<Rightarrow> ustring" where
  "inferCurrency n = (if test_any_i fx_keywords n then USD else KRW)"

text \<open>
  The classifier as the specification words it: an ordered table of rules, each a test
  and a category; the first rule whose test holds gives the category, and \<open>demand\<close> is
  the answer when none does.
\<close>

definition category_rules :: "((ustring \<Rightarrow> bool) \<times> AccountType) list" where
  "category_rules =
     [(test_any term_keywords, term_deposit),
      (test_any demand_keywords, demand),
      (test_any_i fx_keywords, fx_deposit),
      (test_any trust_keywords, trust_protected)]"

definition inferCategory_spec :: "ustring \<Rightarrow> AccountType" where
  "inferCategory_spec n =
     (case find (\<lambda>r. fst r n) category_rules of None \<Rightarrow> demand | Some r \<Rightarrow> snd r)"

section \<open>The catalog index\<close>

text \<open>
  \<open>loadKDIC\<close> after the download and the CSV parser: \<open>rows\<close> holds, for every data line,
  the institution cell and the product cell (a missing cell is the empty string). A line
  is indexed when both cells are non-empty after \<open>trim\<close>; 124 is the bar.
\<close>

definition composite :: "ustring \<Rightarrow> ustring \<Rightarrow> ustring" where
  "composite inst pname = key inst @ [124] @ key pname"

definition loadKDIC :: "(ustring \<times> ustring) list \<Rightarrow> ustring set" where
  "loadKDIC rows =
     set (map (\<lambda>(i, p). composite (trim i) (trim p))
            (filter (\<lambda>(i, p). trim i \<noteq> [] \<and> trim p \<noteq> []) rows))"

text \<open>\<open>kd.has(`${key(a.institution)}|${key(a.product_name ?? "")}`)\<close>\<close>

definition matched :: "ustring set \<Rightarrow> Account \<Rightarrow> bool" where
  "matched kd a \<longleftrightarrow> composite (institution a) (nullish (product_name a) []) \<in> kd"


section \<open>The coverage aggregator\<close>

datatype Tier = Tier1 | Tier2 | TierOther

definition tier2_keywords :: "ustring list" where
  "tier2_keywords = [[51200, 52629, 51008, 54665], [49345, 54840, 51200, 52629],
     [49888, 54801], [49688, 54801], [49352, 47560, 51012, 44552, 44256],
     [45453, 52629, 54801], [49345, 54840, 44552, 50997]]"

definition classifyTier :: "ustring \<Rightarrow> Tier" where
  "classifyTier inst =
     (if test_any tier2_keywords inst then Tier2
      else if test_any [[51008, 54665]] inst \<and> \<not> test_any [[51200, 52629, 51008, 54665]] inst
        then Tier1
      else TierOther)"

record CoverageRow =
  row_license :: ustring
  institutions :: ustring
  products :: "ustring list"
  tier :: Tier
  eligible :: rat
  protected :: rat
  excess :: rat
  nonProtected :: rat
  accounts :: "Account list"

record CoverageTotals =
  total_eligible :: rat
  total_protected :: rat
  total_excess :: rat
  total_nonProtected :: rat
  tier1 :: rat
  tier2 :: rat

text \<open>\<open>a.license || `${a.institution} <suffix>`\<close>, the suffix being a blank and four syllables.\<close>

definition license_suffix :: ustring where
  "license_suffix = [32, 46972, 51060, 49440, 49828]"

definition license_key :: "Account \<Rightarrow> ustring" where
  "license_key a = (if license a \<noteq> [] then license a else institution a @ license_suffix)"

definition new_row :: "ustring \<Rightarrow> Account \<Rightarrow> CoverageRow" where
  "new_row lic a =
     \<lparr>row_license = lic, institutions = institution a, products = [],
      tier = classifyTier (institution a),
      eligible = 0, protected = 0, excess = 0, nonProtected = 0, accounts = []\<rparr>"

text \<open>
  \<open>if (a.product_name && !row.products.includes(a.product_name)) row.products.push(a.product_name)\<close>
\<close>

definition add_product :: "ustring option \<Rightarrow> ustring list \<Rightarrow> ustring list" where
  "add_product pn ps =
     (case pn of None \<Rightarrow> ps
      | Some p \<Rightarrow> if p \<noteq> [] \<and> p \<notin> set ps then ps @ [p] else ps)"

text \<open>
  \<open>byLicense\<close> is a \<open>Map\<close>, which keeps its keys in the order of their first insertion:
  an association list, a new key going to the end and a known key keeping its place.
\<close>

fun map_set :: "ustring \<Rightarrow> CoverageRow \<Rightarrow> (ustring \<times> CoverageRow) list
    \<Rightarrow> (ustring \<times> CoverageRow) list" where
  "map_set k v [] = [(k, v)]"
| "map_set k v ((k', v') # m) = (if k' = k then (k, v) # m else (k', v') # map_set k v m)"

text \<open>
  One turn of the loop over the accounts: the row of the license is created when it is
  not there yet, the account and its product name are recorded, and the amount goes to
  \<open>eligible\<close> or to \<open>nonProtected\<close>.
\<close>

definition add_account :: "ustring set \<Rightarrow> (ustring \<times> CoverageRow) list \<Rightarrow> Account
    \<Rightarrow> (ustring \<times> CoverageRow) list" where
  "add_account kd byLicense a =
     (let lic = license_key a;
          row = (case map_of byLicense lic of None \<Rightarrow> new_row lic a | Some r \<Rightarrow> r);
          row1 = row\<lparr>accounts := accounts row @ [a]\<rparr>;
          row2 = row1\<lparr>products := add_product (product_name a) (products row1)\<rparr>;
          isProtected = isProtectedType (type a);
          isMatched = matched kd a;
          amt = toKRW a;
          row3 = (if isProtected \<and> isMatched then row2\<lparr>eligible := eligible row2 + amt\<rparr>
                  else row2\<lparr>nonProtected := nonProtected row2 + amt\<rparr>)
      in map_set lic row3 byLicense)"

definition apply_limit :: "rat \<Rightarrow> CoverageRow \<Rightarrow> CoverageRow" where
  "apply_limit limit row =
     row\<lparr>protected := min (eligible row) limit, excess := max 0 (eligible row - limit)\<rparr>"

definition add_totals :: "CoverageTotals \<Rightarrow> CoverageRow \<Rightarrow> CoverageTotals" where
  "add_totals t r =
     \<lparr>total_eligible = total_eligible t + eligible r,
      total_protected = total_protected t + protected r,
      total_excess = total_excess t + excess r,
      total_nonProtected = total_nonProtected t + nonProtected r,
      tier1 = (if tier r = Tier1 then tier1 t + eligible r else tier1 t),
      tier2 = (if tier r = Tier1 then tier2 t
               else if tier r = Tier2 then tier2 t + eligible r else tier2 t)\<rparr>"

definition zero_totals :: CoverageTotals where
  "zero_totals = \<lparr>total_eligible = 0, total_protected = 0, total_excess = 0,
     total_nonProtected = 0, tier1 = 0, tier2 = 0\<rparr>"

text \<open>
  The coverage handler \<open>GET\<close> between its two downloads and its response: the catalog
  index \<open>kd\<close>, the limit and the accounts give the rows and the totals.
\<close>

definition coverage_rows :: "ustring set \<Rightarrow> rat \<Rightarrow> Account list \<Rightarrow> CoverageRow list" where
  "coverage_rows kd limit accs = map (apply_limit limit \<circ> snd) (foldl (add_account kd) [] accs)"

definition GET_coverage :: "ustring set \<Rightarrow> rat \<Rightarrow> Account list
    \<Rightarrow> CoverageRow list \<times> CoverageTotals" where
  "GET_coverage kd limit accs =
     (let rows = coverage_rows kd limit accs in (rows, foldl add_totals zero_totals rows))"


section \<open>The routing allocator\<close>

record RateOffer =
  offer_institution :: ustring
  offer_license :: ustring
  product :: ustring
  tenorM :: nat
  rate :: rat

text \<open>The constant \<open>rateOffers\<close>: five banks, with 3.3, 3.1, 2.9, 3.4 and 3.9 per cent.\<close>

definition rateOffers :: "RateOffer list" where
  "rateOffers =
     [\<lparr>offer_institution = [44397, 48124, 51008, 54665],
       offer_license = [44397, 48124, 51008, 54665, 32, 46972, 51060, 49440, 49828],
       product = [51221, 44592, 50696, 44552, 32, 49, 50, 77, 40, 48373, 47532, 41],
       tenorM = 12, rate = 33 / 1000\<rparr>,
      \<lparr>offer_institution = [49888, 54620, 51008, 54665],
       offer_license = [49888, 54620, 51008, 54665, 32, 46972, 51060, 49440, 49828],
       product = [51221, 44592, 50696, 44552, 32, 54, 77, 40, 45800, 47532, 41],
       tenorM = 6, rate = 31 / 1000\<rparr>,
      \<lparr>offer_institution = [54616, 45208, 51008, 54665],
       offer_license = [54616, 45208, 51008, 54665, 32, 46972, 51060, 49440, 49828],
       product = [51221, 44592, 50696, 44552, 32, 51, 77, 40, 45800, 47532, 41],
       tenorM = 3, rate = 29 / 1000\<rparr>,
      \<lparr>offer_institution = [45453, 54801, 51008, 54665],
       offer_license = [45453, 54801, 51008, 54665, 32, 46972, 51060, 49440, 49828],
       product = [51221, 44592, 50696, 44552, 32, 49, 50, 77, 40, 45800, 47532, 41],
       tenorM = 12, rate = 34 / 1000\<rparr>,
      \<lparr>offer_institution = [51200, 52629, 51008, 54665, 67],
       offer_license = [51200, 52629, 51008, 54665, 67, 32, 46972, 51060, 49440, 49828],
       product = [51221, 44592, 50696, 44552, 32, 49, 50, 77],
       tenorM = 12, rate = 39 / 1000\<rparr>]"

text \<open>
  An entry of the plan. The source's \<open>reason\<close> is a text made of the room, the rate and
  the tenor; the model keeps the room it prints, the other two being fields already.
\<close>

record PlanEntry =
  plan_institution :: ustring
  plan_license :: ustring
  plan_product :: ustring
  plan_rate :: rat
  plan_tenorM :: nat
  allocate :: rat
  reason_room :: rat

record Routing =
  liquidityReserve :: rat
  idleCash :: rat
  plan :: "PlanEntry list"
  projectedInterest :: int

text \<open>
  \<open>usedByLicense\<close>: a pass over the accounts that adds the amount of every account of a
  protected type to the entry of its license.
\<close>

definition usedByLicense :: "Account list \<Rightarrow> (ustring \<rightharpoonup> rat)" where
  "usedByLicense accs =
     foldl (\<lambda>m a. if isProtectedType (type a)
                     then m(license a \<mapsto> nullish (m (license a)) 0 + toKRW a) else m)
       Map.empty accs"

text \<open>\<open>plan.filter(p => p.license === o.license).reduce((s, p) => s + p.allocate, 0)\<close>\<close>

definition already :: "PlanEntry list \<Rightarrow> ustring \<Rightarrow> rat" where
  "already pl lic = sum_list (map allocate (filter (\<lambda>p. plan_license p = lic) pl))"

definition room_of :: "rat \<Rightarrow> (ustring \<rightharpoonup> rat) \<Rightarrow> PlanEntry list \<Rightarrow> ustring \<Rightarrow> rat" where
  "room_of limitPerLicense used pl lic =
     max 0 (limitPerLicense - nullish (used lic) 0 - already pl lic)"

definition entry :: "RateOffer \<Rightarrow> rat \<Rightarrow> rat \<Rightarrow> PlanEntry" where
  "entry o' alloc room =
     \<lparr>plan_institution = offer_institution o', plan_license = offer_license o',
      plan_product = product o', plan_rate = rate o', plan_tenorM = tenorM o',
      allocate = alloc, reason_room = room\<rparr>"

text \<open>
  The loop over the sorted offers, on the plan built so far and the cash that remains:
  \<open>break\<close> when no cash remains, \<open>continue\<close> when the license has no room.
\<close>

fun route :: "rat \<Rightarrow> (ustring \<rightharpoonup> rat) \<Rightarrow> RateOffer list \<Rightarrow> PlanEntry list \<Rightarrow> rat
    \<Rightarrow> PlanEntry list \<times> rat" where
  "route limitPerLicense used [] pl remain = (pl, remain)"
| "route limitPerLicense used (o' # os) pl remain =
     (if remain \<le> 0 then (pl, remain)
      else let room = room_of limitPerLicense used pl (offer_license o')
           in if room \<le> 0 then route limitPerLicense used os pl remain
              else let alloc = min (min remain room) 60000000
                   in if alloc > 0
                      then route limitPerLicense used os (pl @ [entry o' alloc room])
                             (remain - alloc)
                      else route limitPerLicense used os pl remain)"

text \<open>
  \<open>[...rateOffers].sort((x, y) => y.rate - x.rate)\<close>: a stable sort, the highest rate
  first.
\<close>

definition sort_offers :: "RateOffer list \<Rightarrow> RateOffer list" where
  "sort_offers offers = sort_key (\<lambda>o'. - rate o') offers"

text \<open>
  The body of \<open>computeRouting\<close> for any list of offers, and \<open>computeRouting\<close> itself,
  which reads the constant \<open>rateOffers\<close>.
\<close>

definition computeRouting_on :: "RateOffer list \<Rightarrow> rat \<Rightarrow> Account list \<Rightarrow> Routing" where
  "computeRouting_on offers limitPerLicense accs =
     (let reserve = 10000000;
          demandKRW = sum_list (map toKRW (filter (\<lambda>a. type a = demand) accs));
          idle = max 0 (demandKRW - reserve);
          used = usedByLicense accs;
          sorted = sort_offers offers;
          (pl, remain) = route limitPerLicense used sorted [] idle
      in \<lparr>liquidityReserve = reserve, idleCash = idle, plan = pl,
          projectedInterest = js_round (sum_list (map (\<lambda>p. allocate p * plan_rate p) pl))\<rparr>)"

definition computeRouting :: "rat \<Rightarrow> Account list \<Rightarrow> Routing" where
  "computeRouting limitPerLicense accs = computeRouting_on rateOffers limitPerLicense accs"

section \<open>Observations and examples\<close>

text \<open>
  What the map \<open>byLicense\<close> holds for a license: the running totals and the accounts of
  its row, and nothing when the license has no row yet.
\<close>

definition eligible_at :: "(ustring \<times> CoverageRow) list \<Rightarrow> ustring \<Rightarrow> rat" where
  "eligible_at m lic = (case map_of m lic of None \<Rightarrow> 0 | Some r \<Rightarrow> eligible r)"

definition nonProtected_at :: "(ustring \<times> CoverageRow) list \<Rightarrow> ustring \<Rightarrow> rat" where
  "nonProtected_at m lic = (case map_of m lic of None \<Rightarrow> 0 | Some r \<Rightarrow> nonProtected r)"

definition accounts_at :: "(ustring \<times> CoverageRow) list \<Rightarrow> ustring \<Rightarrow> Account list" where
  "accounts_at m lic = (case map_of m lic of None \<Rightarrow> [] | Some r \<Rightarrow> accounts r)"

text \<open>The keys of \<open>byLicense\<close> are distinct and every row carries its own key.\<close>

definition keyed :: "(ustring \<times> CoverageRow) list \<Rightarrow> bool" where
  "keyed m \<longleftrightarrow> distinct (map fst m) \<and> (\<forall>(k, r) \<in> set m. row_license r = k)"

text \<open>
  A catalog of one line, institution \<open>"A"\<close> and product \<open>"p"\<close>, and three accounts: a
  demand deposit and an investment with that institution and product under the license
  \<open>"L"\<close>, and a term deposit of two dollars at institution \<open>"B"\<close> with no license and no
  product name.
\<close>

definition example_catalog :: "ustring set" where
  "example_catalog = loadKDIC [([65], [112])]"

definition example_demand :: Account where
  "example_demand = \<lparr>acc_id = [80, 49], institution = [65], license = [76], type = demand,
     currency = KRW, balance = Some 150, fxRate = None, term_months = None,
     product_name = Some [112]\<rparr>"

definition example_investment :: Account where
  "example_investment = \<lparr>acc_id = [78, 49], institution = [65], license = [76],
     type = investment, currency = KRW, balance = Some 50, fxRate = None, term_months = None,
     product_name = Some [112]\<rparr>"

definition example_unlicensed :: Account where
  "example_unlicensed = \<lparr>acc_id = [80, 50], institution = [66], license = [],
     type = term_deposit, currency = USD, balance = Some 2, fxRate = None, term_months = Some 12,
     product_name = None\<rparr>"

definition example_accounts :: "Account list" where
  "example_accounts = [example_demand, example_investment, example_unlicensed]"

text \<open>
  One turn of the loop of \<open>route\<close> for an offer, once the test for remaining cash has
  passed: the plan and the cash after it.
\<close>

definition turn :: "rat \<Rightarrow> (ustring \<rightharpoonup> rat) \<Rightarrow> RateOffer \<Rightarrow> PlanEntry list \<Rightarrow> rat
    \<Rightarrow> PlanEntry list \<times> rat" where
  "turn cap used o' pl remain =
     (let room = room_of cap used pl (offer_license o');
          alloc = min (min remain room) 60000000
      in if room \<le> 0 \<or> alloc \<le> 0 then (pl, remain)
         else (pl @ [entry o' alloc room], remain - alloc))"

text \<open>
  Every license has, in a plan, a share that is not negative and not above the room the
  cap leaves it beside what its accounts already use.
\<close>

definition in_headroom :: "rat \<Rightarrow> (ustring \<rightharpoonup> rat) \<Rightarrow> PlanEntry list \<Rightarrow> bool" where
  "in_headroom cap used pl \<longleftrightarrow>
     (\<forall>L. 0 \<le> already pl L \<and> already pl L \<le> max 0 (cap - nullish (used L) 0))"

text \<open>
  The entry of a plan at position \<open>i\<close> takes the least of the three bounds of its turn: the
  cash not yet allocated by the entries before it, the room of its license after them,
  and the ceiling of sixty million; and it takes more than nothing.
\<close>

definition binding :: "rat \<Rightarrow> rat \<Rightarrow> (ustring \<rightharpoonup> rat) \<Rightarrow> PlanEntry list \<Rightarrow> nat \<Rightarrow> bool" where
  "binding idle cap used pl i \<longleftrightarrow>
     allocate (pl ! i)
       = min (min (idle - sum_list (map allocate (take i pl)))
                (room_of cap used (take i pl) (plan_license (pl ! i)))) 60000000
     \<and> 0 < allocate (pl ! i)"

text \<open>
  Two lists of accounts for the allocator. In the first, a demand deposit of thirty
  million under the license \<open>"L"\<close> and a term deposit of sixty million under the license
  of the savings bank that makes the best offer; in the second, a demand deposit of twelve
  million.
\<close>

definition savings_license :: ustring where
  "savings_license = [51200, 52629, 51008, 54665, 67, 32, 46972, 51060, 49440, 49828]"

definition routing_example :: "Account list" where
  "routing_example =
     [\<lparr>acc_id = [80, 49], institution = [65], license = [76], type = demand,
       currency = KRW, balance = Some 30000000, fxRate = None, term_months = None,
       product_name = None\<rparr>,
      \<lparr>acc_id = [80, 50], institution = [51200, 52629, 51008, 54665, 67],
       license = savings_license, type = term_deposit,
       currency = KRW, balance = Some 60000000, fxRate = None, term_months = Some 12,
       product_name = None\<rparr>]"

definition scenario_example :: "Account list" where
  "scenario_example =
     [\<lparr>acc_id = [80, 49], institution = [65], license = [76], type = demand,
       currency = KRW, balance = Some 12000000, fxRate = None, term_months = None,
       product_name = None\<rparr>]"

section \<open>Properties of the key normalisation\<close>














section \<open>Properties of the type inference\<close>

lemma inferType_refines: "inferTypeFromProduct n = inferCategory_spec n"
  by (simp add: inferTypeFromProduct_def inferCategory_spec_def category_rules_def)

text \<open>
  Claim C9. \<open>inferTypeFromProduct\<close> is the first-match classifier over the ordered rules
  term deposit, demand deposit, foreign currency, trust, with \<open>demand\<close> when no rule
  matches; a name that matches both the term and the demand keywords is a term deposit.
\<close>

theorem inferTypeFromProduct_priority:
  "inferTypeFromProduct n = inferCategory_spec n
   \<and> (test_any term_keywords n \<and> test_any demand_keywords n
        \<longrightarrow> inferTypeFromProduct n = term_deposit)
   \<and> (\<not> test_any term_keywords n \<and> \<not> test_any demand_keywords n
        \<and> \<not> test_any_i fx_keywords n \<and> \<not> test_any trust_keywords n
        \<longrightarrow> inferTypeFromProduct n = demand)"
  by (simp add: inferType_refines [symmetric] inferTypeFromProduct_def)

text \<open>
  The theorem at a name made of the term keyword of four syllables, a blank and the
  demand keyword of two syllables, and at the name \<open>"abc"\<close>, which no rule matches.
\<close>

theorem inferTypeFromProduct_priority_witness:
  "test_any term_keywords [51221, 44592, 50696, 44552, 32, 53685, 51109]
   \<and> test_any demand_keywords [51221, 44592, 50696, 44552, 32, 53685, 51109]
   \<and> inferTypeFromProduct [51221, 44592, 50696, 44552, 32, 53685, 51109] = term_deposit
   \<and> \<not> test_any term_keywords [97, 98, 99] \<and> \<not> test_any demand_keywords [97, 98, 99]
   \<and> \<not> test_any_i fx_keywords [97, 98, 99] \<and> \<not> test_any trust_keywords [97, 98, 99]
   \<and> inferTypeFromProduct [97, 98, 99] = demand"
proof -
  have both: "test_any term_keywords [51221, 44592, 50696, 44552, 32, 53685, 51109]"
    "test_any demand_keywords [51221, 44592, 50696, 44552, 32, 53685, 51109]"
    by (simp_all add: test_any_def term_keywords_def demand_keywords_def)
  have none: "\<not> test_any term_keywords [97, 98, 99]" "\<not> test_any demand_keywords [97, 98, 99]"
    "\<not> test_any_i fx_keywords [97, 98, 99]" "\<not> test_any trust_keywords [97, 98, 99]"
    by (simp_all add: test_any_def test_any_i_def term_keywords_def demand_keywords_def
        fx_keywords_def trust_keywords_def canon_unit_def)
  show ?thesis
    using both none
      inferTypeFromProduct_priority [of "[51221, 44592, 50696, 44552, 32, 53685, 51109]"]
      inferTypeFromProduct_priority [of "[97, 98, 99]"]
    by blast
qed

section \<open>Properties of the coverage aggregator\<close>

lemma map_of_map_set: "map_of (map_set k v m) = (map_of m)(k \<mapsto> v)"
  by (induction m) (auto simp: fun_eq_iff)

lemma keys_map_set:
  "map fst (map_set k v m) = (if k \<in> fst ` set m then map fst m else map fst m @ [k])"
  by (induction m) force+

lemma distinct_map_set: "distinct (map fst m) \<Longrightarrow> distinct (map fst (map_set k v m))"
  by (simp add: keys_map_set)

lemma map_of_add_account:
  assumes "map_of (add_account kd m a) k' = Some r'"
  shows "(k' = license_key a
          \<and> row_license r' = (case map_of m k' of None \<Rightarrow> k' | Some r0 \<Rightarrow> row_license r0))
       \<or> (k' \<noteq> license_key a \<and> map_of m k' = Some r')"
  using assms
  by (auto simp: add_account_def Let_def map_of_map_set new_row_def
      split: option.splits if_splits)

lemma accounts_at_step:
  "accounts_at (add_account kd m a) L
     = (if L = license_key a then accounts_at m L @ [a] else accounts_at m L)"
  by (simp add: accounts_at_def add_account_def Let_def map_of_map_set new_row_def
      split: option.splits)

lemma eligible_at_step:
  "eligible_at (add_account kd m a) L
     = eligible_at m L
       + (if L = license_key a \<and> isProtectedType (type a) \<and> matched kd a then toKRW a else 0)"
  by (simp add: eligible_at_def add_account_def Let_def map_of_map_set new_row_def
      split: option.splits)

lemma nonProtected_at_step:
  "nonProtected_at (add_account kd m a) L
     = nonProtected_at m L
       + (if L = license_key a \<and> \<not> (isProtectedType (type a) \<and> matched kd a)
          then toKRW a else 0)"
  by (simp add: nonProtected_at_def add_account_def Let_def map_of_map_set new_row_def
      split: option.splits)

lemma keys_add_account:
  "map fst (add_account kd m a)
     = (if license_key a \<in> fst ` set m then map fst m else map fst m @ [license_key a])"
  by (simp add: add_account_def Let_def keys_map_set)

lemma keyed_add_account:
  assumes k: "keyed m"
  shows "keyed (add_account kd m a)"
proof -
  have d: "distinct (map fst (add_account kd m a))"
    using k by (simp add: keys_add_account keyed_def)
  have "row_license r' = k'" if "(k', r') \<in> set (add_account kd m a)" for k' r'
  proof -
    from that d have "map_of (add_account kd m a) k' = Some r'" by simp
    then consider
      (new) "k' = license_key a"
        "row_license r' = (case map_of m k' of None \<Rightarrow> k' | Some r0 \<Rightarrow> row_license r0)"
      | (old) "map_of m k' = Some r'"
      using map_of_add_account by blast
    then show ?thesis
    proof cases
      case new
      show ?thesis
      proof (cases "map_of m k'")
        case None
        with new show ?thesis by simp
      next
        case (Some r0)
        then have "(k', r0) \<in> set m" by (rule map_of_SomeD)
        with k have "row_license r0 = k'" by (auto simp: keyed_def)
        with new Some show ?thesis by simp
      qed
    next
      case old
      then have "(k', r') \<in> set m" by (rule map_of_SomeD)
      with k show ?thesis by (auto simp: keyed_def)
    qed
  qed
  with d show ?thesis by (auto simp: keyed_def)
qed

lemma keyed_foldl: "keyed m \<Longrightarrow> keyed (foldl (add_account kd) m accs)"
  by (induction accs arbitrary: m) (simp_all add: keyed_add_account)

lemma keys_foldl:
  "fst ` set (foldl (add_account kd) m accs) = fst ` set m \<union> license_key ` set accs"
proof (induction accs arbitrary: m)
  case Nil
  show ?case by simp
next
  case (Cons a accs)
  have "fst ` set (add_account kd m a) = insert (license_key a) (fst ` set m)"
    using keys_add_account [of kd m a] by (metis (no_types) insert_absorb list.set_map set_append
        list.simps(15) Un_insert_right sup_bot.right_neutral empty_set)
  with Cons show ?case by auto
qed

lemma accounts_at_foldl:
  "accounts_at (foldl (add_account kd) m accs) L
     = accounts_at m L @ filter (\<lambda>a. license_key a = L) accs"
  by (induction accs arbitrary: m) (auto simp: accounts_at_step)

lemma eligible_at_foldl:
  "eligible_at (foldl (add_account kd) m accs) L
     = eligible_at m L
       + sum_list (map toKRW (filter (\<lambda>a. license_key a = L \<and> isProtectedType (type a) \<and> matched kd a) accs))"
  by (induction accs arbitrary: m) (auto simp: eligible_at_step)

lemma nonProtected_at_foldl:
  "nonProtected_at (foldl (add_account kd) m accs) L
     = nonProtected_at m L
       + sum_list (map toKRW (filter (\<lambda>a. license_key a = L \<and> \<not> (isProtectedType (type a) \<and> matched kd a)) accs))"
  by (induction accs arbitrary: m) (auto simp: nonProtected_at_step)

lemma coverage_rows_D:
  assumes "r \<in> set (coverage_rows kd limit accs)"
  shows "\<exists>r0. r = apply_limit limit r0
     \<and> map_of (foldl (add_account kd) [] accs) (row_license r) = Some r0"
proof -
  let ?m = "foldl (add_account kd) [] accs"
  have k: "keyed ?m" by (rule keyed_foldl) (simp add: keyed_def)
  from assms obtain k0 r0 where kr: "(k0, r0) \<in> set ?m" "r = apply_limit limit r0"
    by (auto simp: coverage_rows_def)
  with k have "row_license r0 = k0" "map_of ?m k0 = Some r0"
    by (auto simp: keyed_def)
  with kr show ?thesis by (auto simp: apply_limit_def)
qed

lemma apply_limit_simps:
  "row_license (apply_limit l r) = row_license r" "accounts (apply_limit l r) = accounts r"
  "eligible (apply_limit l r) = eligible r" "nonProtected (apply_limit l r) = nonProtected r"
  "protected (apply_limit l r) = min (eligible r) l"
  "excess (apply_limit l r) = max 0 (eligible r - l)"
  by (simp_all add: apply_limit_def)

lemma isProtectedType_iff:
  "isProtectedType t \<longleftrightarrow> t \<in> {demand, term_deposit, fx_deposit, trust_protected}"
  by (simp add: isProtectedType_def)

lemma coverage_rows_sums:
  assumes "r \<in> set (coverage_rows kd limit accs)"
  shows "eligible r = sum_list (map toKRW (filter (\<lambda>a. license_key a = row_license r
            \<and> isProtectedType (type a) \<and> matched kd a) accs))"
    and "nonProtected r = sum_list (map toKRW (filter (\<lambda>a. license_key a = row_license r
            \<and> \<not> (isProtectedType (type a) \<and> matched kd a)) accs))"
    and "accounts r = filter (\<lambda>a. license_key a = row_license r) accs"
proof -
  let ?m = "foldl (add_account kd) [] accs"
  from coverage_rows_D [OF assms] obtain r0 where
    r0: "r = apply_limit limit r0" "map_of ?m (row_license r) = Some r0"
    by blast
  have e: "eligible r = eligible_at ?m (row_license r)"
    and n: "nonProtected r = nonProtected_at ?m (row_license r)"
    and a: "accounts r = accounts_at ?m (row_license r)"
    using r0 by (simp_all add: eligible_at_def nonProtected_at_def accounts_at_def apply_limit_simps)
  show "eligible r = sum_list (map toKRW (filter (\<lambda>a. license_key a = row_license r
            \<and> isProtectedType (type a) \<and> matched kd a) accs))"
    unfolding e eligible_at_foldl by (simp add: eligible_at_def)
  show "nonProtected r = sum_list (map toKRW (filter (\<lambda>a. license_key a = row_license r
            \<and> \<not> (isProtectedType (type a) \<and> matched kd a)) accs))"
    unfolding n nonProtected_at_foldl by (simp add: nonProtected_at_def)
  show "accounts r = filter (\<lambda>a. license_key a = row_license r) accs"
    unfolding a accounts_at_foldl by (simp add: accounts_at_def)
qed

text \<open>
  Claim C1. In every row of the aggregation, \<open>eligible\<close> is the sum of the amounts of
  the accounts of that license whose type is one of demand, term, fx deposit and protected
  trust and whose composite key is in the catalog index, and \<open>nonProtected\<close> is the sum of
  the amounts of all the other accounts of that license. In one turn of the loop the
  amount goes to \<open>eligible\<close> exactly under that condition and to \<open>nonProtected\<close> otherwise,
  and an investment changes no \<open>eligible\<close>, whatever the catalog holds.
\<close>

theorem coverage_eligible_iff:
  "(\<forall>r \<in> set (fst (GET_coverage kd limit accs)).
      eligible r = sum_list (map toKRW (filter (\<lambda>a. license_key a = row_license r
          \<and> type a \<in> {demand, term_deposit, fx_deposit, trust_protected} \<and> matched kd a) accs))
      \<and> nonProtected r = sum_list (map toKRW (filter (\<lambda>a. license_key a = row_license r
          \<and> \<not> (type a \<in> {demand, term_deposit, fx_deposit, trust_protected} \<and> matched kd a))
            accs)))
   \<and> eligible_at (add_account kd m a) (license_key a)
       = eligible_at m (license_key a)
         + (if type a \<in> {demand, term_deposit, fx_deposit, trust_protected} \<and> matched kd a
            then toKRW a else 0)
   \<and> nonProtected_at (add_account kd m a) (license_key a)
       = nonProtected_at m (license_key a)
         + (if type a \<in> {demand, term_deposit, fx_deposit, trust_protected} \<and> matched kd a
            then 0 else toKRW a)
   \<and> (type a = investment \<longrightarrow> (\<forall>L. eligible_at (add_account kd m a) L = eligible_at m L))"
proof -
  have "\<forall>r \<in> set (fst (GET_coverage kd limit accs)).
      eligible r = sum_list (map toKRW (filter (\<lambda>a. license_key a = row_license r
          \<and> type a \<in> {demand, term_deposit, fx_deposit, trust_protected} \<and> matched kd a) accs))
      \<and> nonProtected r = sum_list (map toKRW (filter (\<lambda>a. license_key a = row_license r
          \<and> \<not> (type a \<in> {demand, term_deposit, fx_deposit, trust_protected} \<and> matched kd a))
            accs))"
    using coverage_rows_sums(1,2) [of _ kd limit accs]
    by (simp add: GET_coverage_def Let_def isProtectedType_iff)
  moreover have "type a = investment \<longrightarrow> (\<forall>L. eligible_at (add_account kd m a) L = eligible_at m L)"
    by (simp add: eligible_at_step isProtectedType_iff)
  ultimately show ?thesis
    by (simp add: eligible_at_step nonProtected_at_step isProtectedType_iff)
qed


lemma mset_filter_split:
  assumes "\<And>x. \<not> (P x \<and> Q x)"
  shows "mset (filter P xs) + mset (filter Q xs) = mset (filter (\<lambda>x. P x \<or> Q x) xs)"
  using assms by (induction xs) auto

lemma mset_concat_groups:
  "distinct ks \<Longrightarrow>
   mset (concat (map (\<lambda>k. filter (\<lambda>a. f a = k) xs) ks)) = mset (filter (\<lambda>a. f a \<in> set ks) xs)"
proof (induction ks)
  case Nil
  show ?case by simp
next
  case (Cons k ks)
  have "mset (filter (\<lambda>a. f a = k) xs) + mset (filter (\<lambda>a. f a \<in> set ks) xs)
      = mset (filter (\<lambda>a. f a = k \<or> f a \<in> set ks) xs)"
    using Cons.prems by (intro mset_filter_split) auto
  with Cons show ?case by simp
qed

text \<open>
  Claim C10. The accounts of a row are the input accounts of its license, in their order;
  the rows have distinct licenses; every account is in the row of its license field or,
  when that is empty, of its institution with the suffix; and all the accounts of all the
  rows are, as a multiset, the input.
\<close>

theorem accounts_partition:
  "(\<forall>r \<in> set (fst (GET_coverage kd limit accs)).
      accounts r = filter (\<lambda>a. license_key a = row_license r) accs)
   \<and> distinct (map row_license (fst (GET_coverage kd limit accs)))
   \<and> (\<forall>a \<in> set accs. \<exists>r \<in> set (fst (GET_coverage kd limit accs)).
        row_license r = (if license a \<noteq> [] then license a else institution a @ license_suffix)
        \<and> a \<in> set (accounts r))
   \<and> mset (concat (map accounts (fst (GET_coverage kd limit accs)))) = mset accs"
proof -
  let ?m = "foldl (add_account kd) [] accs"
  let ?rows = "fst (GET_coverage kd limit accs)"
  have rows: "?rows = coverage_rows kd limit accs"
    by (simp add: GET_coverage_def Let_def)
  have k: "keyed ?m" by (rule keyed_foldl) (simp add: keyed_def)
  have lic: "map row_license ?rows = map fst ?m"
    using k by (auto simp: rows coverage_rows_def keyed_def apply_limit_simps)
  have acc: "\<forall>r \<in> set ?rows. accounts r = filter (\<lambda>a. license_key a = row_license r) accs"
    using coverage_rows_sums(3) [of _ kd limit accs] by (simp add: rows)
  have dist: "distinct (map row_license ?rows)"
    using k by (simp add: lic keyed_def)
  have keys: "set (map row_license ?rows) = license_key ` set accs"
    using keys_foldl [of kd "[]" accs] by (simp add: lic)
  have each: "\<exists>r \<in> set ?rows. row_license r = license_key a \<and> a \<in> set (accounts r)"
    if "a \<in> set accs" for a
  proof -
    from that keys have "license_key a \<in> set (map row_license ?rows)" by blast
    then obtain r where r: "r \<in> set ?rows" "row_license r = license_key a" by auto
    with acc that have "a \<in> set (accounts r)" by simp
    with r show ?thesis by blast
  qed
  have "map accounts ?rows = map (\<lambda>r. filter (\<lambda>a. license_key a = row_license r) accs) ?rows"
    using acc by (intro map_cong) auto
  then have eq: "map accounts ?rows
      = map (\<lambda>k. filter (\<lambda>a. license_key a = k) accs) (map row_license ?rows)"
    by (simp add: comp_def)
  have "mset (concat (map accounts ?rows))
      = mset (filter (\<lambda>a. license_key a \<in> set (map row_license ?rows)) accs)"
    unfolding eq by (rule mset_concat_groups [OF dist])
  also have "\<dots> = mset accs"
    unfolding keys by (simp add: filter_True)
  finally have all: "mset (concat (map accounts ?rows)) = mset accs" .
  from acc dist each all show ?thesis
    unfolding license_key_def by blast
qed

lemmas example_defs = example_catalog_def example_demand_def example_investment_def
  example_unlicensed_def

lemma example_matched:
  "matched example_catalog example_demand" "matched example_catalog example_investment"
  "\<not> matched example_catalog example_unlicensed"
  by (simp_all add: example_defs matched_def loadKDIC_def composite_def key_def toLowerCase_def
      lower_unit_def is_space_def is_punct_def trim_def nullish_def)

lemma js_round_of_int: "js_round (of_int n) = n"
  unfolding js_round_def by (rule floor_unique) simp_all

lemma js_round_numeral: "js_round (numeral k) = numeral k"
  using js_round_of_int [of "numeral k"] by simp

lemma example_toKRW:
  "toKRW example_demand = 150" "toKRW example_investment = 50" "toKRW example_unlicensed = 2800"
  by (simp_all add: example_defs toKRW_def nullish_def USD_def KRW_def js_round_numeral)

lemma example_license_key:
  "license_key example_demand = [76]" "license_key example_investment = [76]"
  "license_key example_unlicensed = [66, 32, 46972, 51060, 49440, 49828]"
  by (simp_all add: example_defs license_key_def license_suffix_def)

lemma example_types:
  "type example_demand = demand" "type example_investment = investment"
  "type example_unlicensed = term_deposit"
  by (simp_all add: example_defs)

lemma example_rows:
  "map (\<lambda>r. (row_license r, eligible r, protected r, excess r, nonProtected r, accounts r))
     (fst (GET_coverage example_catalog 100
            [example_demand, example_investment, example_unlicensed]))
   = [([76], 150, 100, 50, 50, [example_demand, example_investment]),
      ([66, 32, 46972, 51060, 49440, 49828], 0, 0, 0, 2800, [example_unlicensed])]"
  by (simp add: GET_coverage_def coverage_rows_def add_account_def Let_def example_matched
      example_toKRW example_license_key example_types isProtectedType_def new_row_def
      apply_limit_def)

lemma example_rows_shape:
  "\<exists>r1 r2. fst (GET_coverage example_catalog 100 example_accounts) = [r1, r2]
     \<and> row_license r1 = [76] \<and> eligible r1 = 150
     \<and> row_license r2 = [66, 32, 46972, 51060, 49440, 49828]"
  using example_rows unfolding example_accounts_def by (auto simp: map_eq_Cons_conv)

text \<open>
  The theorem at the example: the investment is in the catalog, and its 50 are not
  protected.
\<close>

theorem coverage_eligible_iff_witness:
  "hd (fst (GET_coverage example_catalog 100 example_accounts))
     \<in> set (fst (GET_coverage example_catalog 100 example_accounts))
   \<and> eligible (hd (fst (GET_coverage example_catalog 100 example_accounts))) = 150
   \<and> nonProtected (hd (fst (GET_coverage example_catalog 100 example_accounts))) = 50
   \<and> type example_investment = investment \<and> matched example_catalog example_investment
   \<and> eligible_at (add_account example_catalog [] example_investment) [76] = 0
   \<and> nonProtected_at (add_account example_catalog [] example_investment) [76] = 50"
proof -
  let ?rows = "fst (GET_coverage example_catalog 100 example_accounts)"
  obtain r1 r2 where rows: "?rows = [r1, r2]" and lic: "row_license r1 = [76]"
    using example_rows_shape by blast
  note T = coverage_eligible_iff [of example_catalog 100 example_accounts "[]" example_investment]
  have mem: "hd ?rows \<in> set ?rows" "hd ?rows = r1"
    by (simp_all add: rows)
  have r1: "r1 \<in> set ?rows"
    by (simp add: rows)
  from T r1 have "eligible r1 = sum_list (map toKRW (filter (\<lambda>a. license_key a = row_license r1
          \<and> type a \<in> {demand, term_deposit, fx_deposit, trust_protected}
          \<and> matched example_catalog a) example_accounts))"
    and "nonProtected r1 = sum_list (map toKRW (filter (\<lambda>a. license_key a = row_license r1
          \<and> \<not> (type a \<in> {demand, term_deposit, fx_deposit, trust_protected}
               \<and> matched example_catalog a)) example_accounts))"
    by blast+
  then have "eligible r1 = 150" "nonProtected r1 = 50"
    by (simp_all add: lic example_accounts_def example_license_key example_types
        example_matched example_toKRW)
  then have sums: "eligible (hd ?rows) = 150" "nonProtected (hd ?rows) = 50"
    by (simp_all add: mem(2))
  from T have "eligible_at (add_account example_catalog [] example_investment) [76] = 0"
    and "nonProtected_at (add_account example_catalog [] example_investment) [76] = 50"
    by (simp_all add: example_license_key example_types example_toKRW eligible_at_def
        nonProtected_at_def)
  with mem(1) sums show ?thesis
    by (simp add: example_types example_matched)
qed


text \<open>The theorem at the example, whose third account has no license.\<close>

theorem accounts_partition_witness:
  "hd (fst (GET_coverage example_catalog 100 example_accounts))
     \<in> set (fst (GET_coverage example_catalog 100 example_accounts))
   \<and> accounts (hd (fst (GET_coverage example_catalog 100 example_accounts)))
       = [example_demand, example_investment]
   \<and> example_unlicensed \<in> set example_accounts \<and> license example_unlicensed = []
   \<and> (\<exists>r. r \<in> set (fst (GET_coverage example_catalog 100 example_accounts))
         \<and> row_license r = institution example_unlicensed @ license_suffix
         \<and> example_unlicensed \<in> set (accounts r))
   \<and> mset (concat (map accounts (fst (GET_coverage example_catalog 100 example_accounts))))
       = mset example_accounts"
proof -
  let ?rows = "fst (GET_coverage example_catalog 100 example_accounts)"
  obtain r1 r2 where rows: "?rows = [r1, r2]" and lic: "row_license r1 = [76]"
    using example_rows_shape by blast
  have mem: "hd ?rows \<in> set ?rows" "hd ?rows = r1"
    by (simp_all add: rows)
  have u: "example_unlicensed \<in> set example_accounts" "license example_unlicensed = []"
    by (simp_all add: example_accounts_def example_unlicensed_def)
  note T = accounts_partition [of example_catalog 100 example_accounts]
  have r1: "r1 \<in> set ?rows"
    by (simp add: rows)
  from T r1 have "accounts r1 = filter (\<lambda>a. license_key a = row_license r1) example_accounts"
    by blast
  then have "accounts r1 = [example_demand, example_investment]"
    by (simp add: lic example_accounts_def example_license_key)
  then have a: "accounts (hd ?rows) = [example_demand, example_investment]"
    by (simp add: mem(2))
  from T u(1) have "\<exists>r \<in> set ?rows.
      row_license r = (if license example_unlicensed \<noteq> [] then license example_unlicensed
         else institution example_unlicensed @ license_suffix)
      \<and> example_unlicensed \<in> set (accounts r)"
    by blast
  with u(2) have b: "\<exists>r. r \<in> set ?rows
      \<and> row_license r = institution example_unlicensed @ license_suffix
      \<and> example_unlicensed \<in> set (accounts r)"
    by auto
  from T have "mset (concat (map accounts ?rows)) = mset example_accounts"
    by blast
  with mem(1) a u b show ?thesis
    by blast
qed

section \<open>Properties of the routing allocator\<close>

lemma already_Nil: "already [] L = 0"
  by (simp add: already_def)

lemma already_snoc:
  "already (pl @ [e]) L = already pl L + (if plan_license e = L then allocate e else 0)"
  by (simp add: already_def)

lemma entry_simps:
  "plan_license (entry o' a r) = offer_license o'" "allocate (entry o' a r) = a"
  "plan_rate (entry o' a r) = rate o'" "reason_room (entry o' a r) = r"
  by (simp_all add: entry_def)

lemma route_Cons_cases:
  obtains (stop) "remain \<le> 0" "route cap used (o' # os) pl remain = (pl, remain)"
  | (skip) "0 < remain" "room_of cap used pl (offer_license o') \<le> 0"
      "route cap used (o' # os) pl remain = route cap used os pl remain"
  | (take) "0 < remain" "0 < room_of cap used pl (offer_license o')"
      "0 < min (min remain (room_of cap used pl (offer_license o'))) 60000000"
      "route cap used (o' # os) pl remain
        = route cap used os
            (pl @ [entry o' (min (min remain (room_of cap used pl (offer_license o'))) 60000000)
                     (room_of cap used pl (offer_license o'))])
            (remain - min (min remain (room_of cap used pl (offer_license o'))) 60000000)"
proof -
  consider "remain \<le> 0" | "0 < remain" "room_of cap used pl (offer_license o') \<le> 0"
    | "0 < remain" "0 < room_of cap used pl (offer_license o')"
    by linarith
  then show thesis
  proof cases
    case 1
    then show ?thesis using stop by simp
  next
    case 2
    then show ?thesis using skip by (simp add: Let_def)
  next
    case 3
    then have "0 < min (min remain (room_of cap used pl (offer_license o'))) 60000000"
      by simp
    with 3 show ?thesis using take by (simp add: Let_def)
  qed
qed



lemma room_of_pos: "0 < room_of cap used pl L \<Longrightarrow>
  room_of cap used pl L = cap - nullish (used L) 0 - already pl L"
  by (simp add: room_of_def max_def split: if_splits)

lemma route_within:
  "route cap used os pl remain = (pl', remain') \<Longrightarrow> in_headroom cap used pl \<Longrightarrow> in_headroom cap used pl'"
proof (induction os arbitrary: pl remain)
  case Nil
  then show ?case by simp
next
  case (Cons o' os)
  show ?case
  proof (cases rule: route_Cons_cases [of remain cap used o' os pl])
    case stop
    with Cons.prems show ?thesis by simp
  next
    case skip
    with Cons show ?thesis by simp
  next
    case take
    let ?room = "room_of cap used pl (offer_license o')"
    define alloc where "alloc = min (min remain ?room) 60000000"
    have pos: "0 < alloc" and le: "alloc \<le> ?room"
      using take(3) by (simp_all add: alloc_def)
    have room: "?room = cap - nullish (used (offer_license o')) 0 - already pl (offer_license o')"
      using take(2) by (rule room_of_pos)
    have old: "0 \<le> already pl L" "already pl L \<le> max 0 (cap - nullish (used L) 0)" for L
      using Cons.prems(2) by (simp_all add: in_headroom_def)
    have "in_headroom cap used (pl @ [entry o' alloc ?room])"
      unfolding in_headroom_def
    proof (intro allI conjI)
      fix L
      show "0 \<le> already (pl @ [entry o' alloc ?room]) L"
        using old(1) [of L] pos by (simp add: already_snoc entry_simps)
      show "already (pl @ [entry o' alloc ?room]) L \<le> max 0 (cap - nullish (used L) 0)"
      proof (cases "offer_license o' = L")
        case True
        with le room have "already pl L + alloc \<le> cap - nullish (used L) 0"
          by simp
        with True show ?thesis
          by (simp add: already_snoc entry_simps)
      next
        case False
        with old(2) [of L] show ?thesis
          by (simp add: already_snoc entry_simps)
      qed
    qed
    with Cons.IH [OF Cons.prems(1) [unfolded take(4), folded alloc_def]] show ?thesis .
  qed
qed

lemma used_foldl:
  "nullish (foldl (\<lambda>m a. if isProtectedType (type a)
                     then m(license a \<mapsto> nullish (m (license a)) 0 + toKRW a) else m) m0 accs L) 0
   = nullish (m0 L) 0
     + sum_list (map toKRW (filter (\<lambda>a. license a = L \<and> isProtectedType (type a)) accs))"
  by (induction accs arbitrary: m0) (auto simp: nullish_def)

lemma usedByLicense_sum:
  "nullish (usedByLicense accs L) 0
   = sum_list (map toKRW (filter (\<lambda>a. license a = L \<and> isProtectedType (type a)) accs))"
  unfolding usedByLicense_def used_foldl by (simp add: nullish_def)

lemma route_turn:
  assumes "0 < remain"
  shows "route cap used (o' # os) pl remain
     = route cap used os (fst (turn cap used o' pl remain)) (snd (turn cap used o' pl remain))"
proof (cases "room_of cap used pl (offer_license o') \<le> 0")
  case True
  with assms show ?thesis by (simp add: turn_def Let_def)
next
  case False
  with assms have "0 < min (min remain (room_of cap used pl (offer_license o'))) 60000000"
    by simp
  with assms False show ?thesis
    by (simp add: turn_def Let_def not_le [symmetric] del: min_less_iff_conj)
qed

lemma route_stop: "remain \<le> 0 \<Longrightarrow> route cap used os pl remain = (pl, remain)"
  by (cases os) simp_all

lemma turn_cases:
  obtains (none) "remain \<le> 0"
  | (skip) "0 < remain" "room_of cap used pl (offer_license ofr) \<le> 0"
      "turn cap used ofr pl remain = (pl, remain)"
  | (take) alloc where "0 < remain" "0 < room_of cap used pl (offer_license ofr)"
      "alloc = min (min remain (room_of cap used pl (offer_license ofr))) 60000000"
      "0 < alloc"
      "turn cap used ofr pl remain
        = (pl @ [entry ofr alloc (room_of cap used pl (offer_license ofr))], remain - alloc)"
proof -
  consider "remain \<le> 0" | "0 < remain" "room_of cap used pl (offer_license ofr) \<le> 0"
    | "0 < remain" "0 < room_of cap used pl (offer_license ofr)"
    by linarith
  then show thesis
  proof cases
    case 1
    then show ?thesis by (rule none)
  next
    case 2
    then show ?thesis using skip by (simp add: turn_def Let_def)
  next
    case 3
    then have "0 < min (min remain (room_of cap used pl (offer_license ofr))) 60000000"
      by simp
    with 3 show ?thesis using take [OF 3 refl]
      by (simp add: turn_def Let_def not_le [symmetric] del: min_less_iff_conj)
  qed
qed








lemma binding_old: "i < length pl \<Longrightarrow> binding idle cap used (pl @ [e]) i = binding idle cap used pl i"
  by (simp add: binding_def nth_append)

lemma binding_new:
  "binding idle cap used (pl @ [e]) (length pl) \<longleftrightarrow>
     allocate e = min (min (idle - sum_list (map allocate pl))
                         (room_of cap used pl (plan_license e))) 60000000
     \<and> 0 < allocate e"
  by (simp add: binding_def)

lemma turn_binding:
  assumes r: "0 < remain" and eq: "remain = idle - sum_list (map allocate pl)"
    and old: "\<forall>i<length pl. binding idle cap used pl i"
  shows "snd (turn cap used o' pl remain)
           = idle - sum_list (map allocate (fst (turn cap used o' pl remain)))
     \<and> (\<forall>i<length (fst (turn cap used o' pl remain)).
           binding idle cap used (fst (turn cap used o' pl remain)) i)"
proof (cases rule: turn_cases [where remain=remain and cap=cap and used=used and pl=pl and ofr=o'])
  case none
  with r show ?thesis by simp
next
  case skip
  with eq old show ?thesis by simp
next
  case (take a)
  let ?e = "entry o' a (room_of cap used pl (offer_license o'))"
  have new: "binding idle cap used (pl @ [?e]) (length pl)"
    unfolding binding_new using take(3,4) eq by (simp add: entry_simps)
  have "binding idle cap used (pl @ [?e]) i" if "i < length (pl @ [?e])" for i
  proof (cases "i < length pl")
    case True
    with old show ?thesis by (simp add: binding_old)
  next
    case False
    with that have "i = length pl" by simp
    with new show ?thesis by simp
  qed
  moreover have "remain - a = idle - sum_list (map allocate (pl @ [?e]))"
    using eq by (simp add: entry_simps)
  ultimately show ?thesis
    using take(5) by simp
qed

lemma route_binding:
  "route cap used os pl remain = (pl', remain') \<Longrightarrow> remain = idle - sum_list (map allocate pl)
   \<Longrightarrow> \<forall>i<length pl. binding idle cap used pl i
   \<Longrightarrow> \<forall>i<length pl'. binding idle cap used pl' i"
proof (induction os arbitrary: pl remain)
  case Nil
  then show ?case by simp
next
  case (Cons o' os)
  show ?case
  proof (cases "remain \<le> 0")
    case True
    with Cons.prems show ?thesis by simp
  next
    case False
    then have r: "0 < remain" by simp
    note t = turn_binding [OF r Cons.prems(2,3), of o']
    from Cons.IH [OF Cons.prems(1) [unfolded route_turn [OF r]] conjunct1 [OF t] conjunct2 [OF t]]
    show ?thesis .
  qed
qed

lemma route_skip:
  assumes "cap - nullish (used (offer_license o')) 0 - already pl (offer_license o') \<le> 0"
  shows "route cap used (o' # os) pl remain = route cap used os pl remain"
proof (cases "remain \<le> 0")
  case True
  then show ?thesis by (simp add: route_stop)
next
  case False
  moreover from assms have "room_of cap used pl (offer_license o') \<le> 0"
    by (simp add: room_of_def)
  ultimately show ?thesis by simp
qed

lemma computeRouting_on_route:
  obtains pl remain where
    "route cap (usedByLicense accs) (sort_offers offers) []
       (max 0 (sum_list (map toKRW (filter (\<lambda>a. type a = demand) accs)) - 10000000))
      = (pl, remain)"
    "plan (computeRouting_on offers cap accs) = pl"
    "idleCash (computeRouting_on offers cap accs)
      = max 0 (sum_list (map toKRW (filter (\<lambda>a. type a = demand) accs)) - 10000000)"
    "liquidityReserve (computeRouting_on offers cap accs) = 10000000"
    "projectedInterest (computeRouting_on offers cap accs)
      = js_round (sum_list (map (\<lambda>p. allocate p * plan_rate p) pl))"
proof -
  obtain pl remain where "route cap (usedByLicense accs) (sort_offers offers) []
       (max 0 (sum_list (map toKRW (filter (\<lambda>a. type a = demand) accs)) - 10000000))
      = (pl, remain)"
    by (cases "route cap (usedByLicense accs) (sort_offers offers) []
       (max 0 (sum_list (map toKRW (filter (\<lambda>a. type a = demand) accs)) - 10000000))")
  then show thesis
    using that [of pl remain] by (simp add: computeRouting_on_def Let_def)
qed


text \<open>
  Claim C3, amended. For every license, the allocations of the plan to that license add up
  to a value that is not negative and at most \<open>max 0 (cap - used)\<close>, where \<open>used\<close> is the sum
  of the amounts of the accounts of that license that have a protected type. (The bound
  \<open>cap - used\<close> itself fails when the license already uses more than the cap.)
\<close>

theorem plan_within_headroom:
  "0 \<le> already (plan (computeRouting_on offers cap accs)) L
   \<and> already (plan (computeRouting_on offers cap accs)) L
       \<le> max 0 (cap - sum_list (map toKRW
            (filter (\<lambda>a. license a = L \<and> isProtectedType (type a)) accs)))"
proof -
  obtain pl remain where r: "route cap (usedByLicense accs) (sort_offers offers) []
       (max 0 (sum_list (map toKRW (filter (\<lambda>a. type a = demand) accs)) - 10000000))
      = (pl, remain)"
    and p: "plan (computeRouting_on offers cap accs) = pl"
    by (rule computeRouting_on_route)
  have "in_headroom cap (usedByLicense accs) []"
    by (simp add: in_headroom_def already_Nil)
  with r have "in_headroom cap (usedByLicense accs) pl"
    by (rule route_within)
  then show ?thesis
    unfolding p by (simp add: in_headroom_def usedByLicense_sum)
qed


lemma min3_bounds:
  "(a::rat) = min (min x y) c \<Longrightarrow> 0 < a
   \<Longrightarrow> a = min (min x y) c \<and> 0 < a \<and> a \<le> x \<and> a \<le> y \<and> a \<le> c"
  by linarith

text \<open>
  Claim C6. Every entry of the plan allocates the least of the cash that remains at its
  turn, the room of its license at its turn and sixty million; the amount is positive and
  above none of the three. An offer whose license has no room is passed over, and the
  loop goes on with the same plan and the same cash.
\<close>

theorem allocation_is_binding_minimum:
  "(\<forall>i < length (plan (computeRouting_on offers cap accs)).
      (let R = computeRouting_on offers cap accs;
           e = plan R ! i;
           before = take i (plan R);
           remain = idleCash R - sum_list (map allocate before);
           room = max 0 (cap - nullish (usedByLicense accs (plan_license e)) 0
                    - already before (plan_license e))
       in allocate e = min (min remain room) 60000000
          \<and> 0 < allocate e \<and> allocate e \<le> remain \<and> allocate e \<le> room
          \<and> allocate e \<le> 60000000))
   \<and> (cap - nullish (used (offer_license ofr)) 0 - already pl (offer_license ofr) \<le> 0
        \<longrightarrow> route cap used (ofr # os) pl remain = route cap used os pl remain)"
proof -
  obtain pl' remain' where r: "route cap (usedByLicense accs) (sort_offers offers) []
       (max 0 (sum_list (map toKRW (filter (\<lambda>a. type a = demand) accs)) - 10000000))
      = (pl', remain')"
    and p: "plan (computeRouting_on offers cap accs) = pl'"
    and i: "idleCash (computeRouting_on offers cap accs)
      = max 0 (sum_list (map toKRW (filter (\<lambda>a. type a = demand) accs)) - 10000000)"
    by (rule computeRouting_on_route)
  have b: "\<forall>i<length pl'. binding (idleCash (computeRouting_on offers cap accs)) cap
      (usedByLicense accs) pl' i"
    using r by (rule route_binding) (simp_all add: i)
  have "let R = computeRouting_on offers cap accs;
           e = plan R ! i;
           before = take i (plan R);
           remain = idleCash R - sum_list (map allocate before);
           room = max 0 (cap - nullish (usedByLicense accs (plan_license e)) 0
                    - already before (plan_license e))
       in allocate e = min (min remain room) 60000000
          \<and> 0 < allocate e \<and> allocate e \<le> remain \<and> allocate e \<le> room
          \<and> allocate e \<le> 60000000"
    if "i < length (plan (computeRouting_on offers cap accs))" for i
  proof -
    from that b have "binding (idleCash (computeRouting_on offers cap accs)) cap
        (usedByLicense accs) pl' i"
      by (simp add: p)
    then have "allocate (pl' ! i)
        = min (min (idleCash (computeRouting_on offers cap accs)
                     - sum_list (map allocate (take i pl')))
                 (max 0 (cap - nullish (usedByLicense accs (plan_license (pl' ! i))) 0
                    - already (take i pl') (plan_license (pl' ! i))))) 60000000"
      and "0 < allocate (pl' ! i)"
      unfolding binding_def room_of_def by blast+
    then show ?thesis
      unfolding Let_def p by (rule min3_bounds)
  qed
  with route_skip show ?thesis by blast
qed

lemma sorted_rateOffers:
  "sort_offers rateOffers
     = [rateOffers ! 4, rateOffers ! 3, rateOffers ! 0, rateOffers ! 1, rateOffers ! 2]"
  by (simp add: sort_offers_def rateOffers_def)

lemma routing_example_used:
  "nullish (usedByLicense routing_example savings_license) 0 = 60000000"
  "nullish (usedByLicense routing_example (offer_license (rateOffers ! 3))) 0 = 0"
  unfolding usedByLicense_sum
  by (simp_all add: routing_example_def savings_license_def toKRW_def
      nullish_def USD_def KRW_def isProtectedType_def rateOffers_def)

lemma routing_example_idle:
  "idleCash (computeRouting 50000000 routing_example) = 20000000"
  by (simp add: computeRouting_def computeRouting_on_def Let_def routing_example_def toKRW_def
      nullish_def USD_def KRW_def split: prod.splits)

lemma routing_example_plan:
  "plan (computeRouting 50000000 routing_example) = [entry (rateOffers ! 3) 20000000 50000000]"
proof -
  let ?used = "usedByLicense routing_example"
  have l4: "offer_license (rateOffers ! 4) = savings_license"
    by (simp add: rateOffers_def savings_license_def)
  have "route 50000000 ?used (sort_offers rateOffers) [] 20000000
      = route 50000000 ?used [rateOffers ! 3, rateOffers ! 0, rateOffers ! 1, rateOffers ! 2]
          [] 20000000"
    unfolding sorted_rateOffers
    by (rule route_skip) (simp add: l4 routing_example_used already_Nil)
  also have "\<dots> = ([entry (rateOffers ! 3) 20000000 50000000], 0)"
    by (simp add: room_of_def routing_example_used already_Nil Let_def)
  finally have "route 50000000 ?used (sort_offers rateOffers) [] 20000000
      = ([entry (rateOffers ! 3) 20000000 50000000], 0)" .
  moreover have "sum_list (map toKRW (filter (\<lambda>a. type a = demand) routing_example)) = 30000000"
    by (simp add: routing_example_def toKRW_def nullish_def USD_def KRW_def)
  ultimately show ?thesis
    by (simp add: computeRouting_def computeRouting_on_def Let_def)
qed

text \<open>
  Claim C3 as it is stated fails at the first example with a cap of fifty million: the
  savings bank already holds sixty million, the plan gives it nothing, and nothing is more
  than minus ten million.
\<close>

theorem headroom_claim_counterexample:
  "\<not> already (plan (computeRouting 50000000 routing_example)) savings_license
       \<le> 50000000 - nullish (usedByLicense routing_example savings_license) 0"
proof -
  have "offer_license (rateOffers ! 3) \<noteq> savings_license"
    by (simp add: rateOffers_def savings_license_def)
  then have "already (plan (computeRouting 50000000 routing_example)) savings_license = 0"
    by (simp add: routing_example_plan already_def entry_simps)
  then show ?thesis
    by (simp add: routing_example_used)
qed

lemma route_single_take:
  assumes "2000000 \<le> cap - nullish (used (offer_license ofr)) 0"
  shows "route cap used (ofr # os) [] 2000000
     = ([entry ofr 2000000 (cap - nullish (used (offer_license ofr)) 0)], 0)"
proof -
  have room: "room_of cap used [] (offer_license ofr) = cap - nullish (used (offer_license ofr)) 0"
    using assms by (simp add: room_of_def already_Nil)
  have alloc: "min (min 2000000 (cap - nullish (used (offer_license ofr)) 0)) 60000000 = 2000000"
    using assms by simp
  have "route cap used (ofr # os) [] 2000000
      = route cap used os [entry ofr 2000000 (cap - nullish (used (offer_license ofr)) 0)] 0"
    using assms by (simp add: room alloc Let_def)
  then show ?thesis
    by (simp add: route_stop)
qed

text \<open>
  Claim C7. The idle cash is \<open>max 0 (demandTotal - liquidityReserve)\<close>, the reserve being
  ten million. When the demand deposits total twelve million the idle cash is two
  million, and when the best offer has room for two million the plan is that one offer with
  two million, and the projected interest is two million times its rate, rounded.
\<close>

theorem idle_cash_and_scenario:
  "idleCash (computeRouting_on offers cap accs)
     = max 0 (sum_list (map toKRW (filter (\<lambda>a. type a = demand) accs))
              - liquidityReserve (computeRouting_on offers cap accs))
   \<and> liquidityReserve (computeRouting_on offers cap accs) = 10000000
   \<and> (sum_list (map toKRW (filter (\<lambda>a. type a = demand) accs)) = 12000000 \<longrightarrow>
        idleCash (computeRouting_on offers cap accs) = 2000000
        \<and> (\<forall>ofr os. sort_offers offers = ofr # os
              \<and> 2000000 \<le> cap - nullish (usedByLicense accs (offer_license ofr)) 0 \<longrightarrow>
            map allocate (plan (computeRouting_on offers cap accs)) = [2000000]
            \<and> map plan_license (plan (computeRouting_on offers cap accs)) = [offer_license ofr]
            \<and> projectedInterest (computeRouting_on offers cap accs)
                = js_round (2000000 * rate ofr)))"
proof -
  obtain pl remain where r: "route cap (usedByLicense accs) (sort_offers offers) []
       (max 0 (sum_list (map toKRW (filter (\<lambda>a. type a = demand) accs)) - 10000000))
      = (pl, remain)"
    and p: "plan (computeRouting_on offers cap accs) = pl"
    and i: "idleCash (computeRouting_on offers cap accs)
      = max 0 (sum_list (map toKRW (filter (\<lambda>a. type a = demand) accs)) - 10000000)"
    and l: "liquidityReserve (computeRouting_on offers cap accs) = 10000000"
    and j: "projectedInterest (computeRouting_on offers cap accs)
      = js_round (sum_list (map (\<lambda>p. allocate p * plan_rate p) pl))"
    by (rule computeRouting_on_route)
  have scen: "map allocate pl = [2000000] \<and> map plan_license pl = [offer_license ofr]
      \<and> js_round (sum_list (map (\<lambda>p. allocate p * plan_rate p) pl)) = js_round (2000000 * rate ofr)"
    if d: "sum_list (map toKRW (filter (\<lambda>a. type a = demand) accs)) = 12000000"
      and s: "sort_offers offers = ofr # os"
      and h: "2000000 \<le> cap - nullish (usedByLicense accs (offer_license ofr)) 0"
    for ofr os
  proof -
    from r have "route cap (usedByLicense accs) (ofr # os) [] 2000000 = (pl, remain)"
      by (simp add: d s)
    with route_single_take [of cap "usedByLicense accs" ofr os] h
    have "pl = [entry ofr 2000000 (cap - nullish (usedByLicense accs (offer_license ofr)) 0)]"
      by simp
    then show ?thesis by (simp add: entry_simps)
  qed
  show ?thesis
    unfolding p i l j using scen by auto
qed

text \<open>The theorem at the second example, where the best offer pays 3.9 per cent.\<close>

theorem idle_cash_and_scenario_witness:
  "sum_list (map toKRW (filter (\<lambda>a. type a = demand) scenario_example)) = 12000000
   \<and> sort_offers rateOffers
       = rateOffers ! 4 # [rateOffers ! 3, rateOffers ! 0, rateOffers ! 1, rateOffers ! 2]
   \<and> 2000000 \<le> 50000000 - nullish (usedByLicense scenario_example
                                      (offer_license (rateOffers ! 4))) 0
   \<and> idleCash (computeRouting 50000000 scenario_example) = 2000000
   \<and> map allocate (plan (computeRouting 50000000 scenario_example)) = [2000000]
   \<and> projectedInterest (computeRouting 50000000 scenario_example) = 78000"
proof -
  have d: "sum_list (map toKRW (filter (\<lambda>a. type a = demand) scenario_example)) = 12000000"
    by (simp add: scenario_example_def toKRW_def nullish_def USD_def KRW_def)
  have u: "nullish (usedByLicense scenario_example (offer_license (rateOffers ! 4))) 0 = 0"
    unfolding usedByLicense_sum by (simp add: scenario_example_def rateOffers_def)
  have rt: "js_round (2000000 * rate (rateOffers ! 4)) = 78000"
    by (simp add: rateOffers_def js_round_numeral)
  note T = idle_cash_and_scenario [of rateOffers 50000000 scenario_example, folded computeRouting_def]
  from T d have "idleCash (computeRouting 50000000 scenario_example) = 2000000"
    by blast
  moreover from T d sorted_rateOffers u
  have "map allocate (plan (computeRouting 50000000 scenario_example)) = [2000000]
      \<and> projectedInterest (computeRouting 50000000 scenario_example)
          = js_round (2000000 * rate (rateOffers ! 4))"
    by simp
  ultimately show ?thesis
    using d sorted_rateOffers u rt by simp
qed


text \<open>
  The theorem at the first example: twenty million are idle, the savings bank has no
  room, and the next offer takes the twenty million.
\<close>

theorem allocation_is_binding_minimum_witness:
  "0 < length (plan (computeRouting 50000000 routing_example))
   \<and> allocate (plan (computeRouting 50000000 routing_example) ! 0) = 20000000
   \<and> idleCash (computeRouting 50000000 routing_example) = 20000000
   \<and> 50000000 - nullish (usedByLicense routing_example (offer_license (rateOffers ! 4))) 0
        - already [] (offer_license (rateOffers ! 4)) \<le> 0
   \<and> route 50000000 (usedByLicense routing_example) [rateOffers ! 4, rateOffers ! 3] [] 20000000
       = route 50000000 (usedByLicense routing_example) [rateOffers ! 3] [] 20000000"
proof -
  let ?R = "computeRouting 50000000 routing_example"
  have l4: "offer_license (rateOffers ! 4) = savings_license"
    by (simp add: rateOffers_def savings_license_def)
  have len: "0 < length (plan ?R)"
    by (simp add: routing_example_plan)
  have full: "50000000 - nullish (usedByLicense routing_example (offer_license (rateOffers ! 4))) 0
        - already [] (offer_license (rateOffers ! 4)) \<le> 0"
    by (simp add: l4 routing_example_used already_Nil)
  note T = allocation_is_binding_minimum [where offers=rateOffers and cap=50000000
      and accs=routing_example and used="usedByLicense routing_example"
      and ofr="rateOffers ! 4" and pl="[]" and os="[rateOffers ! 3]" and remain=20000000,
      folded computeRouting_def]
  from T len have "allocate (plan ?R ! 0)
      = min (min (idleCash ?R - sum_list (map allocate (take 0 (plan ?R))))
               (max 0 (50000000 - nullish (usedByLicense routing_example
                                            (plan_license (plan ?R ! 0))) 0
                  - already (take 0 (plan ?R)) (plan_license (plan ?R ! 0))))) 60000000"
    unfolding Let_def by blast
  then have a: "allocate (plan ?R ! 0) = 20000000"
    by (simp add: routing_example_idle routing_example_plan entry_simps routing_example_used
        already_Nil)
  from T full have "route 50000000 (usedByLicense routing_example)
      [rateOffers ! 4, rateOffers ! 3] [] 20000000
    = route 50000000 (usedByLicense routing_example) [rateOffers ! 3] [] 20000000"
    by blast
  with len a full routing_example_idle show ?thesis
    by blast
qed

end
